theory Spec2Isabelle
  imports Main
begin

section \<open>Reference-counted mutable resources\<close>

text \<open>
  A shallow embedding of \<^verbatim>\<open>packages/ai-core/src/common/ai-variable-resource.ts\<close>
  (classes \<^verbatim>\<open>DisposableMutableResource\<close>, \<^verbatim>\<open>DisposableRefCounter\<close>,
  \<^verbatim>\<open>UpdatableReferenceResource\<close>) and of the class
  \<^verbatim>\<open>ChangeSetFileResourceResolver\<close> of
  \<^verbatim>\<open>packages/ai-chat/src/browser/change-set-file-resource.ts\<close>.

  Objects live in a store indexed by addresses, because handles are shared and a handle
  outlives the registry entry it was created for. A function object (a save callback) is
  represented by its identity, a promise by its identity and by the way it settles.
  Everything a caller can observe besides return values, i.e. change notifications, calls
  of save callbacks and calls of the teardown closure, is appended to a trace.
\<close>

subsection \<open>Values\<close>

type_synonym addr = nat

type_synonym callback = nat

datatype 'a promise_result = Fulfilled 'a | Rejected

text \<open>\<^verbatim>\<open>string | Promise<string>\<close>: a string, or a promise with its identity and outcome.\<close>

datatype payload = Text string | Pending nat "string promise_result"

text \<open>
  The operator \<^verbatim>\<open>===\<close> on payloads: strings are compared by value, promises by
  identity, and a string is never identical to a promise.
\<close>

fun strict_eq :: "payload \<Rightarrow> payload \<Rightarrow> bool" where
  "strict_eq (Text a) (Text b) = (a = b)"
| "strict_eq (Pending i _) (Pending j _) = (i = j)"
| "strict_eq _ _ = False"

text \<open>
  \<^verbatim>\<open>ResourceInitializationOptions\<close>; every field may be absent.
  Modelled from the spec: the types of the three flags, which the code picks from the
  platform's \<^verbatim>\<open>Resource\<close> interface, whose declaration is not among the sources. The
  specification gives all three as optional booleans.
\<close>

record ResourceInitializationOptions =
  init_autosaveable :: "bool option"
  init_initiallyDirty :: "bool option"
  init_readOnly :: "bool option"
  init_contents :: "payload option"
  init_onSave :: "callback option"

text \<open>
  \<^verbatim>\<open>ResourceUpdateOptions\<close>. The code tests \<^verbatim>\<open>'onSave' in options\<close>, so for the callback
  three cases are distinguished: key absent (\<open>None\<close>), key present with value
  \<^verbatim>\<open>undefined\<close> (\<open>Some None\<close>), key present with a function (\<open>Some (Some cb)\<close>).
\<close>

record ResourceUpdateOptions =
  upd_contents :: "payload option"
  upd_onSave :: "callback option option"

text \<open>What an observer can see happening on one resource.\<close>

datatype signal = DidChangeContents | SaveInvoked callback string | OnDispose

subsection \<open>The change-notification channel\<close>

text \<open>
  Modelled from the spec: the class \<^verbatim>\<open>Emitter\<close> of the platform core, which is not part
  of the sources at hand. The specification describes it as a single no-payload event per
  holder, and disposing it as detaching the channel so that no further notification fires.
  Firing a live emitter delivers one notification; firing a disposed one delivers none.
\<close>

record Emitter =
  isDisposed :: bool

definition Emitter_new :: Emitter where
  "Emitter_new = \<lparr>isDisposed = False\<rparr>"

definition Emitter_fire :: "Emitter \<Rightarrow> signal list" where
  "Emitter_fire e = (if isDisposed e then [] else [DidChangeContents])"

definition Emitter_dispose :: "Emitter \<Rightarrow> Emitter" where
  "Emitter_dispose e = e\<lparr>isDisposed := True\<rparr>"

subsection \<open>DisposableMutableResource\<close>

record DisposableMutableResource =
  uri :: string
  options :: "ResourceInitializationOptions option"
  onSave :: "callback option"
  contents :: payload
  onDidChangeContentsEmitter :: Emitter

text \<open>
  The constructor: \<^verbatim>\<open>this.onSave = options?.onSave; this.contents = options?.contents ?? ''\<close>.
\<close>

definition resource_new ::
  "string \<Rightarrow> ResourceInitializationOptions option \<Rightarrow> DisposableMutableResource" where
  "resource_new u opts =
     \<lparr>uri = u,
      options = opts,
      onSave = (case opts of None \<Rightarrow> None | Some io \<Rightarrow> init_onSave io),
      contents = (case opts of None \<Rightarrow> Text ''''
                  | Some io \<Rightarrow> (case init_contents io of None \<Rightarrow> Text '''' | Some c \<Rightarrow> c)),
      onDidChangeContentsEmitter = Emitter_new\<rparr>"

text \<open>\<^verbatim>\<open>get readOnly() { return this.options?.readOnly || !this.onSave; }\<close>\<close>

definition resource_readOnly :: "DisposableMutableResource \<Rightarrow> bool" where
  "resource_readOnly r =
     ((case options r of None \<Rightarrow> None | Some io \<Rightarrow> init_readOnly io) = Some True
      \<or> onSave r = None)"

text \<open>\<^verbatim>\<open>get autosaveable() { return this.options?.autosaveable !== false; }\<close>\<close>

definition resource_autosaveable :: "DisposableMutableResource \<Rightarrow> bool" where
  "resource_autosaveable r =
     ((case options r of None \<Rightarrow> None | Some io \<Rightarrow> init_autosaveable io) \<noteq> Some False)"

text \<open>\<^verbatim>\<open>get initiallyDirty() { return !!this.options?.initiallyDirty; }\<close>\<close>

definition resource_initiallyDirty :: "DisposableMutableResource \<Rightarrow> bool" where
  "resource_initiallyDirty r =
     ((case options r of None \<Rightarrow> None | Some io \<Rightarrow> init_initiallyDirty io) = Some True)"

text \<open>
  \<^verbatim>\<open>readContents() { return Promise.resolve(this.contents); }\<close>: a string payload is
  delivered as it is, a promise payload settles as that promise does.
\<close>

definition resource_readContents :: "DisposableMutableResource \<Rightarrow> string promise_result" where
  "resource_readContents r = (case contents r of Text s \<Rightarrow> Fulfilled s | Pending _ res \<Rightarrow> res)"

text \<open>
  \<^verbatim>\<open>update(options)\<close>: the payload is replaced and the emitter fired when contents are
  given and not identical to the current payload; then the callback field is replaced when
  the key \<^verbatim>\<open>onSave\<close> is present and its value is not the current callback.
\<close>

definition resource_update ::
  "ResourceUpdateOptions \<Rightarrow> DisposableMutableResource \<Rightarrow> DisposableMutableResource \<times> signal list" where
  "resource_update opts r =
     (let (r1, sigs) =
            (case upd_contents opts of
               None \<Rightarrow> (r, [])
             | Some c \<Rightarrow>
                 if \<not> strict_eq c (contents r)
                 then (r\<lparr>contents := c\<rparr>, Emitter_fire (onDidChangeContentsEmitter r))
                 else (r, []));
          r2 = (case upd_onSave opts of
                  None \<Rightarrow> r1
                | Some f \<Rightarrow> if f \<noteq> onSave r1 then r1\<lparr>onSave := f\<rparr> else r1)
      in (r2, sigs))"

text \<open>
  \<^verbatim>\<open>async saveContents(contents)\<close>. The callback tested and called is the one of the
  initialization options, \<^verbatim>\<open>this.options.onSave\<close>. The first argument says how the promise
  returned by the callback settles: when it is rejected, the \<^verbatim>\<open>await\<close> throws and the
  update is skipped. The callback is taken to leave the resource alone, and no other call
  is interleaved between the callback and the update.
\<close>

definition resource_saveContents ::
  "unit promise_result \<Rightarrow> string \<Rightarrow> DisposableMutableResource
     \<Rightarrow> unit promise_result \<times> DisposableMutableResource \<times> signal list" where
  "resource_saveContents cb_result x r =
     (case (case options r of None \<Rightarrow> None | Some io \<Rightarrow> init_onSave io) of
        None \<Rightarrow> (Fulfilled (), r, [])
      | Some cb \<Rightarrow>
          (case cb_result of
             Rejected \<Rightarrow> (Rejected, r, [SaveInvoked cb x])
           | Fulfilled _ \<Rightarrow>
               (let (r', sigs) =
                      resource_update \<lparr>upd_contents = Some (Text x), upd_onSave = None\<rparr> r
                in (Fulfilled (), r', SaveInvoked cb x # sigs))))"

text \<open>\<^verbatim>\<open>dispose() { this.onDidChangeContentsEmitter.dispose(); }\<close>\<close>

definition resource_dispose :: "DisposableMutableResource \<Rightarrow> DisposableMutableResource" where
  "resource_dispose r =
     r\<lparr>onDidChangeContentsEmitter := Emitter_dispose (onDidChangeContentsEmitter r)\<rparr>"

subsection \<open>DisposableRefCounter\<close>

text \<open>
  The counter holds its object and the number of references; \<^verbatim>\<open>refs\<close> is a JavaScript
  number, modelled by an integer. The closure \<^verbatim>\<open>onDispose\<close> is run by the caller of
  \<open>counter_dispose\<close>, which is told whether the count has become zero.
\<close>

record 'v DisposableRefCounter =
  object :: 'v
  refs :: int

definition counter_acquire :: "'v DisposableRefCounter \<Rightarrow> 'v DisposableRefCounter" where
  "counter_acquire item = item\<lparr>refs := refs item + 1\<rparr>"

definition counter_create :: "'v \<Rightarrow> 'v DisposableRefCounter" where
  "counter_create v = counter_acquire \<lparr>object = v, refs = 0\<rparr>"

definition counter_dispose :: "'v DisposableRefCounter \<Rightarrow> 'v DisposableRefCounter \<times> bool" where
  "counter_dispose c = (let c' = c\<lparr>refs := refs c - 1\<rparr> in (c', refs c' = 0))"

subsection \<open>The resolver and its handles\<close>

text \<open>
  The state of a \<^verbatim>\<open>ChangeSetFileResourceResolver\<close> and of the objects it has created.
  An \<^verbatim>\<open>UpdatableReferenceResource\<close> is the address of its counter in the store (the resolver
  creates one counter and one resource per handle object). \<open>fresh\<close> is the next address to
  allocate.
\<close>

record resolver_state =
  cache :: "string \<rightharpoonup> addr"
  store :: "addr \<rightharpoonup> DisposableMutableResource DisposableRefCounter"
  fresh :: addr
  trace :: "(addr \<times> signal) list"

definition init :: resolver_state where
  "init = \<lparr>cache = Map.empty, store = Map.empty, fresh = 0, trace = []\<rparr>"

datatype error = Error string

text \<open>The two failures, named as in the specification, with the messages of the code.\<close>

definition DuplicateRegistration :: "string \<Rightarrow> error" where
  "DuplicateRegistration key = Error (''Resource '' @ key @ '' already exists.'')"

definition UnknownIdentifier :: "string \<Rightarrow> error" where
  "UnknownIdentifier key = Error (''No resource for '' @ key @ ''.'')"

text \<open>
  The closure handed to \<^verbatim>\<open>DisposableRefCounter.create\<close> by \<^verbatim>\<open>add\<close>:
  \<^verbatim>\<open>() => { underlyingResource.dispose(); this.cache.delete(key); }\<close>.
\<close>

definition onDispose :: "addr \<Rightarrow> resolver_state \<Rightarrow> resolver_state" where
  "onDispose a s =
     (case store s a of
        None \<Rightarrow> s
      | Some c \<Rightarrow>
          s\<lparr>store := (store s)(a \<mapsto> c\<lparr>object := resource_dispose (object c)\<rparr>),
            cache := (cache s)(uri (object c) := None),
            trace := trace s @ [(a, OnDispose)]\<rparr>)"

text \<open>
  Methods of a handle. A handle is always an address returned by \<open>add\<close> or \<open>resolve\<close>; at
  any other address the functions leave the state alone, and the getters return a fixed
  value.
\<close>

definition handle_dispose :: "addr \<Rightarrow> resolver_state \<Rightarrow> resolver_state" where
  "handle_dispose a s =
     (case store s a of
        None \<Rightarrow> s
      | Some c \<Rightarrow>
          (let (c', zero) = counter_dispose c;
               s1 = s\<lparr>store := (store s)(a \<mapsto> c')\<rparr>
           in if zero then onDispose a s1 else s1))"

definition handle_acquire :: "addr \<Rightarrow> resolver_state \<Rightarrow> resolver_state" where
  "handle_acquire a s =
     (case store s a of
        None \<Rightarrow> s
      | Some c \<Rightarrow> s\<lparr>store := (store s)(a \<mapsto> counter_acquire c)\<rparr>)"

definition handle_update :: "addr \<Rightarrow> ResourceUpdateOptions \<Rightarrow> resolver_state \<Rightarrow> resolver_state" where
  "handle_update a opts s =
     (case store s a of
        None \<Rightarrow> s
      | Some c \<Rightarrow>
          (let (r, sigs) = resource_update opts (object c)
           in s\<lparr>store := (store s)(a \<mapsto> c\<lparr>object := r\<rparr>),
                trace := trace s @ map (Pair a) sigs\<rparr>))"

definition handle_saveContents ::
  "addr \<Rightarrow> string \<Rightarrow> unit promise_result \<Rightarrow> resolver_state \<Rightarrow> unit promise_result \<times> resolver_state" where
  "handle_saveContents a x cb_result s =
     (case store s a of
        None \<Rightarrow> (Fulfilled (), s)
      | Some c \<Rightarrow>
          (let (res, r, sigs) = resource_saveContents cb_result x (object c)
           in (res, s\<lparr>store := (store s)(a \<mapsto> c\<lparr>object := r\<rparr>),
                      trace := trace s @ map (Pair a) sigs\<rparr>)))"

definition handle_readContents :: "addr \<Rightarrow> resolver_state \<Rightarrow> string promise_result" where
  "handle_readContents a s =
     (case store s a of None \<Rightarrow> Rejected | Some c \<Rightarrow> resource_readContents (object c))"

definition handle_readOnly :: "addr \<Rightarrow> resolver_state \<Rightarrow> bool" where
  "handle_readOnly a s =
     (case store s a of None \<Rightarrow> True | Some c \<Rightarrow> resource_readOnly (object c))"

text \<open>
  The fields \<^verbatim>\<open>reference.refs\<close> and \<^verbatim>\<open>reference.object\<close> of a handle, for stating
  properties.
\<close>

definition handle_refs :: "addr \<Rightarrow> resolver_state \<Rightarrow> int" where
  "handle_refs a s = (case store s a of None \<Rightarrow> 0 | Some c \<Rightarrow> refs c)"

definition handle_object :: "addr \<Rightarrow> resolver_state \<Rightarrow> DisposableMutableResource option" where
  "handle_object a s = map_option object (store s a)"

text \<open>The methods of the resolver. Each returns its result, or the error thrown, and the state.\<close>

definition add ::
  "string \<Rightarrow> ResourceInitializationOptions option \<Rightarrow> resolver_state
     \<Rightarrow> (error + addr) \<times> resolver_state" where
  "add key opts s =
     (if cache s key \<noteq> None then (Inl (DuplicateRegistration key), s)
      else
        (let a = fresh s;
             ref = counter_create (resource_new key opts)
         in (Inr a, s\<lparr>store := (store s)(a \<mapsto> ref),
                      cache := (cache s)(key \<mapsto> a),
                      fresh := Suc a\<rparr>)))"

definition resolve :: "string \<Rightarrow> resolver_state \<Rightarrow> (error + addr) \<times> resolver_state" where
  "resolve key s =
     (case cache s key of
        None \<Rightarrow> (Inl (UnknownIdentifier key), s)
      | Some a \<Rightarrow> (Inr a, handle_acquire a s))"

definition tryGet :: "string \<Rightarrow> resolver_state \<Rightarrow> addr option \<times> resolver_state" where
  "tryGet key s =
     (case resolve key s of
        (Inl _, s') \<Rightarrow> (None, s')
      | (Inr a, s') \<Rightarrow> (Some a, s'))"

definition update :: "string \<Rightarrow> string \<Rightarrow> resolver_state \<Rightarrow> (error + unit) \<times> resolver_state" where
  "update key x s =
     (case cache s key of
        None \<Rightarrow> (Inl (UnknownIdentifier key), s)
      | Some a \<Rightarrow>
          (Inr (), handle_update a \<lparr>upd_contents = Some (Text x), upd_onSave = None\<rparr> s))"

subsection \<open>Sequences of calls\<close>

text \<open>
  The calls a client can make: the four methods of the resolver and the state-changing
  methods of a handle, on any address and in any order. The static methods
  \<^verbatim>\<open>acquire\<close> are not among them: they are called by \<open>resolve\<close> only. \<open>run\<close> performs
  a sequence of calls; a call that throws leaves the state as it was.
\<close>

datatype command =
    Add string "ResourceInitializationOptions option"
  | Resolve string
  | TryGet string
  | Update string string
  | Dispose addr
  | HandleUpdate addr ResourceUpdateOptions
  | SaveContents addr string "unit promise_result"

fun step :: "command \<Rightarrow> resolver_state \<Rightarrow> resolver_state" where
  "step (Add key opts) s = snd (add key opts s)"
| "step (Resolve key) s = snd (resolve key s)"
| "step (TryGet key) s = snd (tryGet key s)"
| "step (Update key x) s = snd (update key x s)"
| "step (Dispose a) s = handle_dispose a s"
| "step (HandleUpdate a opts) s = handle_update a opts s"
| "step (SaveContents a x cb_result) s = snd (handle_saveContents a x cb_result s)"

fun run :: "command list \<Rightarrow> resolver_state \<Rightarrow> resolver_state" where
  "run [] s = s"
| "run (c # cs) s = run cs (step c s)"

subsection \<open>Invariants of the reachable states\<close>

text \<open>
  Three facts hold in every state reached from \<open>init\<close> by a sequence of calls. An entry of
  the cache points to a counter with at least one reference, a live emitter and the key of
  the entry. A counter that the cache does not point to has no reference left and a
  disposed emitter; allocated addresses lie below \<open>fresh\<close>. The teardown closure of a counter
  has run at most once, and only for a counter with no reference left.
\<close>

definition emitter_live :: "DisposableMutableResource DisposableRefCounter \<Rightarrow> bool" where
  "emitter_live c = (\<not> isDisposed (onDidChangeContentsEmitter (object c)))"

definition cache_ok :: "resolver_state \<Rightarrow> bool" where
  "cache_ok s =
     (\<forall>k a. cache s k = Some a \<longrightarrow>
        (\<exists>c. store s a = Some c \<and> uri (object c) = k \<and> 1 \<le> refs c \<and> emitter_live c))"

definition store_ok :: "resolver_state \<Rightarrow> bool" where
  "store_ok s =
     (\<forall>a c. store s a = Some c \<longrightarrow>
        a < fresh s \<and>
        (cache s (uri (object c)) \<noteq> Some a \<longrightarrow> refs c \<le> 0 \<and> \<not> emitter_live c))"

definition trace_ok :: "resolver_state \<Rightarrow> bool" where
  "trace_ok s =
     (\<forall>a. count_list (trace s) (a, OnDispose) \<le> 1 \<and>
          ((a, OnDispose) \<in> set (trace s) \<longrightarrow> (\<exists>c. store s a = Some c \<and> refs c \<le> 0)))"

definition invar :: "resolver_state \<Rightarrow> bool" where
  "invar s = (cache_ok s \<and> store_ok s \<and> trace_ok s)"

text \<open>
  What a sequence of calls keeps of the object behind a handle: its key and its
  initialization options, and, once its emitter is disposed, the number of change
  notifications delivered for it.
\<close>

definition frame :: "addr \<Rightarrow> resolver_state \<Rightarrow> resolver_state \<Rightarrow> bool" where
  "frame a s s' =
     (\<forall>c. store s a = Some c \<longrightarrow>
        (\<exists>c'. store s' a = Some c' \<and>
              uri (object c') = uri (object c) \<and>
              options (object c') = options (object c) \<and>
              (\<not> emitter_live c \<longrightarrow>
                 \<not> emitter_live c' \<and>
                 count_list (trace s') (a, DidChangeContents) =
                   count_list (trace s) (a, DidChangeContents))))"

subsection \<open>Example states\<close>

text \<open>Options and states of the scenarios at which the theorems are instantiated.\<close>

definition bare_options :: ResourceInitializationOptions where
  "bare_options = \<lparr>init_autosaveable = None, init_initiallyDirty = None, init_readOnly = None,
     init_contents = None, init_onSave = None\<rparr>"

definition hello_options :: ResourceInitializationOptions where
  "hello_options = bare_options\<lparr>init_contents := Some (Text ''hello'')\<rparr>"

definition saving_options :: ResourceInitializationOptions where
  "saving_options = bare_options\<lparr>init_readOnly := Some False, init_onSave := Some 7\<rparr>"

definition one_entry :: resolver_state where
  "one_entry = run [Add ''a'' None] init"

definition two_references :: resolver_state where
  "two_references = run [Add ''a'' None, Resolve ''a''] init"

definition lifecycle_example :: resolver_state where
  "lifecycle_example = run [Add ''a'' None, Dispose 0, Add ''b'' None] init"

definition hello_entry :: resolver_state where
  "hello_entry = run [Add ''a'' (Some hello_options)] init"

definition saving_entry :: resolver_state where
  "saving_entry = run [Add ''a'' (Some saving_options)] init"

section \<open>Properties\<close>

subsection \<open>Auxiliary facts\<close>

lemmas model_defs =
  init_def add_def resolve_def tryGet_def update_def handle_dispose_def handle_acquire_def
  handle_update_def handle_saveContents_def handle_readContents_def handle_readOnly_def
  handle_refs_def handle_object_def onDispose_def counter_create_def counter_acquire_def
  counter_dispose_def resource_new_def resource_update_def resource_saveContents_def
  resource_dispose_def resource_readContents_def resource_readOnly_def
  Emitter_new_def Emitter_fire_def Emitter_dispose_def
  DuplicateRegistration_def UnknownIdentifier_def Let_def

lemma lifecycle_example_eq:
  "lifecycle_example =
     \<lparr>cache = [''b'' \<mapsto> 1],
      store = [0 \<mapsto> \<lparr>object = resource_dispose (resource_new ''a'' None), refs = 0\<rparr>,
               1 \<mapsto> \<lparr>object = resource_new ''b'' None, refs = 1\<rparr>],
      fresh = 2,
      trace = [(0, OnDispose)]\<rparr>"
  by (simp add: lifecycle_example_def model_defs fun_upd_twist)

lemma strict_eq_Text: "strict_eq (Text x) p = (p = Text x)"
  by (cases p) auto

lemma error_kinds_distinct: "DuplicateRegistration k \<noteq> UnknownIdentifier k'"
  by (simp add: DuplicateRegistration_def UnknownIdentifier_def)

lemma resource_update_uri [simp]: "uri (fst (resource_update opts r)) = uri r"
  by (simp add: resource_update_def Let_def split: option.splits)

lemma resource_update_emitter [simp]:
  "onDidChangeContentsEmitter (fst (resource_update opts r)) = onDidChangeContentsEmitter r"
  by (simp add: resource_update_def Let_def split: option.splits)

lemma resource_update_options [simp]: "options (fst (resource_update opts r)) = options r"
  by (simp add: resource_update_def Let_def split: option.splits)

lemma resource_update_signals:
  "snd (resource_update opts r) = [] \<or> snd (resource_update opts r) = [DidChangeContents]"
  by (simp add: resource_update_def Let_def Emitter_fire_def split: option.splits)

lemma resource_update_disposed:
  "isDisposed (onDidChangeContentsEmitter r) \<Longrightarrow> snd (resource_update opts r) = []"
  by (simp add: resource_update_def Let_def Emitter_fire_def split: option.splits)

lemma resource_saveContents_uri [simp]:
  "uri (fst (snd (resource_saveContents res x r))) = uri r"
  by (simp add: resource_saveContents_def split_beta split: option.splits promise_result.splits)

lemma resource_saveContents_emitter [simp]:
  "onDidChangeContentsEmitter (fst (snd (resource_saveContents res x r))) =
     onDidChangeContentsEmitter r"
  by (simp add: resource_saveContents_def split_beta split: option.splits promise_result.splits)

lemma resource_saveContents_options [simp]:
  "options (fst (snd (resource_saveContents res x r))) = options r"
  by (simp add: resource_saveContents_def split_beta split: option.splits promise_result.splits)

lemma resource_saveContents_signals:
  "OnDispose \<notin> set (snd (snd (resource_saveContents res x r)))"
  using resource_update_signals [of "\<lparr>upd_contents = Some (Text x), upd_onSave = None\<rparr>" r]
  by (auto simp: resource_saveContents_def split_beta split: option.splits promise_result.splits)

lemma resource_saveContents_disposed:
  "isDisposed (onDidChangeContentsEmitter r) \<Longrightarrow>
     DidChangeContents \<notin> set (snd (snd (resource_saveContents res x r)))"
  by (auto simp: resource_saveContents_def split_beta resource_update_disposed
      split: option.splits promise_result.splits)

lemma handle_update_eq:
  "store s a = Some c \<Longrightarrow>
   handle_update a opts s =
     s\<lparr>store := (store s)(a \<mapsto> c\<lparr>object := fst (resource_update opts (object c))\<rparr>),
       trace := trace s @ map (Pair a) (snd (resource_update opts (object c)))\<rparr>"
  by (simp add: handle_update_def split_beta)

lemma handle_saveContents_eq:
  "store s a = Some c \<Longrightarrow>
   handle_saveContents a x res s =
     (fst (resource_saveContents res x (object c)),
      s\<lparr>store := (store s)(a \<mapsto> c\<lparr>object := fst (snd (resource_saveContents res x (object c)))\<rparr>),
        trace := trace s @ map (Pair a) (snd (snd (resource_saveContents res x (object c))))\<rparr>)"
  by (simp add: handle_saveContents_def split_beta)

lemma handle_dispose_eq:
  "store s a = Some c \<Longrightarrow>
   handle_dispose a s =
     (if refs c = 1
      then s\<lparr>store := (store s)(a \<mapsto> c\<lparr>refs := 0, object := resource_dispose (object c)\<rparr>),
             cache := (cache s)(uri (object c) := None),
             trace := trace s @ [(a, OnDispose)]\<rparr>
      else s\<lparr>store := (store s)(a \<mapsto> c\<lparr>refs := refs c - 1\<rparr>)\<rparr>)"
  by (simp add: handle_dispose_def counter_dispose_def onDispose_def Let_def)

text \<open>Disposing handles: the teardowns run, the count, and what stays allocated.\<close>

lemma handle_dispose_teardowns:
  "count_list (trace (handle_dispose b s)) (a, OnDispose) =
     count_list (trace s) (a, OnDispose) + (if b = a \<and> handle_refs a s = 1 then 1 else 0)"
proof (cases "store s b")
  case None
  then show ?thesis by (auto simp: handle_dispose_def handle_refs_def)
next
  case (Some c)
  then show ?thesis by (auto simp: handle_dispose_eq handle_refs_def)
qed

lemma handle_dispose_refs:
  "handle_refs a (handle_dispose b s) =
     handle_refs a s - (if b = a \<and> store s a \<noteq> None then 1 else 0)"
proof (cases "store s b")
  case None
  then show ?thesis by (auto simp: handle_dispose_def handle_refs_def)
next
  case (Some c)
  then show ?thesis by (auto simp: handle_dispose_eq handle_refs_def)
qed

lemma handle_dispose_allocated:
  "(store (handle_dispose b s) a = None) = (store s a = None)"
proof (cases "store s b")
  case None
  then show ?thesis by (simp add: handle_dispose_def)
next
  case (Some c)
  then show ?thesis by (auto simp: handle_dispose_eq)
qed

lemma run_disposes_teardowns:
  "count_list (trace (run (map Dispose bs) s)) (a, OnDispose) =
     count_list (trace s) (a, OnDispose) +
       (if 0 < handle_refs a s \<and> handle_refs a s \<le> int (count_list bs a) then 1 else 0)"
proof (induction bs arbitrary: s)
  case Nil
  then show ?case by simp
next
  case (Cons b bs)
  show ?case
  proof (cases "b = a \<and> store s a \<noteq> None")
    case True
    then show ?thesis
      by (simp add: Cons.IH handle_dispose_teardowns handle_dispose_refs)
  next
    case False
    have "b \<noteq> a \<or> handle_refs a s = 0"
      using False by (auto simp: handle_refs_def)
    then show ?thesis
      using False by (auto simp: Cons.IH handle_dispose_teardowns handle_dispose_refs)
  qed
qed

subsection \<open>The invariants hold in every reachable state\<close>

lemma invar_init: "invar init"
  by (simp add: invar_def cache_ok_def store_ok_def trace_ok_def init_def)

lemma cache_okD:
  "cache_ok s \<Longrightarrow> cache s k = Some a \<Longrightarrow>
     \<exists>c. store s a = Some c \<and> uri (object c) = k \<and> 1 \<le> refs c \<and> emitter_live c"
  unfolding cache_ok_def by blast

lemma store_okD:
  "store_ok s \<Longrightarrow> store s a = Some c \<Longrightarrow>
     a < fresh s \<and> (cache s (uri (object c)) \<noteq> Some a \<longrightarrow> refs c \<le> 0 \<and> \<not> emitter_live c)"
  unfolding store_ok_def by blast

lemma trace_okD:
  "trace_ok s \<Longrightarrow>
     count_list (trace s) (a, OnDispose) \<le> 1 \<and>
     ((a, OnDispose) \<in> set (trace s) \<longrightarrow> (\<exists>c. store s a = Some c \<and> refs c \<le> 0))"
  unfolding trace_ok_def by blast

lemma invar_modify:
  assumes inv: "invar s" and at: "store s a = Some c"
    and u: "uri (object c') = uri (object c)" and r: "refs c' = refs c"
    and e: "emitter_live c' = emitter_live c"
    and t: "\<forall>b. (b, OnDispose) \<notin> set t"
  shows "invar (s\<lparr>store := (store s)(a \<mapsto> c'), trace := trace s @ t\<rparr>)"
proof -
  let ?s = "s\<lparr>store := (store s)(a \<mapsto> c'), trace := trace s @ t\<rparr>"
  from inv have co: "cache_ok s" and so: "store_ok s" and tro: "trace_ok s"
    by (simp_all add: invar_def)
  have c: "cache_ok ?s"
    unfolding cache_ok_def
  proof (intro allI impI)
    fix k b assume "cache ?s k = Some b"
    then have kb: "cache s k = Some b" by simp
    from cache_okD[OF co kb] obtain cb where
      cb: "store s b = Some cb" "uri (object cb) = k" "1 \<le> refs cb" "emitter_live cb" by blast
    show "\<exists>c. store ?s b = Some c \<and> uri (object c) = k \<and> 1 \<le> refs c \<and> emitter_live c"
    proof (cases "b = a")
      case True
      with cb at have "cb = c" by simp
      with cb True u r e show ?thesis by simp
    next
      case False
      with cb show ?thesis by simp
    qed
  qed
  have s: "store_ok ?s"
    unfolding store_ok_def
  proof (intro allI impI)
    fix b cb assume st: "store ?s b = Some cb"
    show "b < fresh ?s \<and>
        (cache ?s (uri (object cb)) \<noteq> Some b \<longrightarrow> refs cb \<le> 0 \<and> \<not> emitter_live cb)"
    proof (cases "b = a")
      case True
      with st have "cb = c'" by simp
      with store_okD[OF so at] True u r e show ?thesis by simp
    next
      case False
      with st have "store s b = Some cb" by simp
      from store_okD[OF so this] show ?thesis by simp
    qed
  qed
  have tr: "trace_ok ?s"
    unfolding trace_ok_def
  proof (intro allI)
    fix b
    from t have nt: "(b, OnDispose) \<notin> set t" by blast
    from trace_okD[OF tro, of b] at r nt
    show "count_list (trace ?s) (b, OnDispose) \<le> 1 \<and>
          ((b, OnDispose) \<in> set (trace ?s) \<longrightarrow> (\<exists>c. store ?s b = Some c \<and> refs c \<le> 0))"
      by (auto simp: count_list_0_iff)
  qed
  from c s tr show ?thesis by (simp add: invar_def)
qed

lemma invar_acquire:
  assumes inv: "invar s" and k: "cache s k = Some a"
  shows "invar (handle_acquire a s)"
proof -
  from inv have co: "cache_ok s" and so: "store_ok s" and tro: "trace_ok s"
    by (simp_all add: invar_def)
  from cache_okD[OF co k] obtain c where
    c: "store s a = Some c" "uri (object c) = k" "1 \<le> refs c" "emitter_live c" by blast
  let ?s = "s\<lparr>store := (store s)(a \<mapsto> c\<lparr>refs := refs c + 1\<rparr>)\<rparr>"
  have eq: "handle_acquire a s = ?s"
    using c by (simp add: handle_acquire_def counter_acquire_def)
  have 1: "cache_ok ?s"
    unfolding cache_ok_def
  proof (intro allI impI)
    fix k' b assume "cache ?s k' = Some b"
    then have kb: "cache s k' = Some b" by simp
    from cache_okD[OF co kb] obtain cb where
      cb: "store s b = Some cb" "uri (object cb) = k'" "1 \<le> refs cb" "emitter_live cb" by blast
    show "\<exists>c. store ?s b = Some c \<and> uri (object c) = k' \<and> 1 \<le> refs c \<and> emitter_live c"
    proof (cases "b = a")
      case True
      with cb c have "cb = c" by simp
      with cb True show ?thesis by (simp add: emitter_live_def)
    next
      case False
      with cb show ?thesis by simp
    qed
  qed
  have 2: "store_ok ?s"
    unfolding store_ok_def
  proof (intro allI impI)
    fix b cb assume st: "store ?s b = Some cb"
    show "b < fresh ?s \<and>
        (cache ?s (uri (object cb)) \<noteq> Some b \<longrightarrow> refs cb \<le> 0 \<and> \<not> emitter_live cb)"
    proof (cases "b = a")
      case True
      with st have "cb = c\<lparr>refs := refs c + 1\<rparr>" by simp
      with store_okD[OF so c(1)] True c k show ?thesis by simp
    next
      case False
      with st have "store s b = Some cb" by simp
      from store_okD[OF so this] show ?thesis by simp
    qed
  qed
  have 3: "trace_ok ?s"
    unfolding trace_ok_def
  proof (intro allI)
    fix b
    from trace_okD[OF tro, of b] c
    show "count_list (trace ?s) (b, OnDispose) \<le> 1 \<and>
          ((b, OnDispose) \<in> set (trace ?s) \<longrightarrow> (\<exists>c. store ?s b = Some c \<and> refs c \<le> 0))"
      by auto
  qed
  from 1 2 3 show ?thesis by (simp add: invar_def eq)
qed

lemma invar_add:
  assumes inv: "invar s" and k: "cache s key = None"
  shows "invar (snd (add key opts s))"
proof -
  from inv have co: "cache_ok s" and so: "store_ok s" and tro: "trace_ok s"
    by (simp_all add: invar_def)
  let ?c = "counter_create (resource_new key opts)"
  let ?s = "s\<lparr>store := (store s)(fresh s \<mapsto> ?c), cache := (cache s)(key \<mapsto> fresh s),
              fresh := Suc (fresh s)\<rparr>"
  have eq: "snd (add key opts s) = ?s"
    using k by (simp add: add_def Let_def)
  have new: "uri (object ?c) = key" "refs ?c = 1" "emitter_live ?c"
    by (simp_all add: counter_create_def counter_acquire_def resource_new_def emitter_live_def
        Emitter_new_def)
  have unalloc: "store s (fresh s) = None"
  proof (cases "store s (fresh s)")
    case (Some c)
    from store_okD[OF so Some] show ?thesis by simp
  qed simp
  have 1: "cache_ok ?s"
    unfolding cache_ok_def
  proof (intro allI impI)
    fix k' b assume kb: "cache ?s k' = Some b"
    show "\<exists>c. store ?s b = Some c \<and> uri (object c) = k' \<and> 1 \<le> refs c \<and> emitter_live c"
    proof (cases "k' = key")
      case True
      with kb have "b = fresh s" by simp
      with True new show ?thesis by simp
    next
      case False
      with kb have kb': "cache s k' = Some b" by simp
      from cache_okD[OF co kb'] obtain cb where
        cb: "store s b = Some cb" "uri (object cb) = k'" "1 \<le> refs cb" "emitter_live cb" by blast
      with unalloc have "b \<noteq> fresh s" by auto
      with cb show ?thesis by simp
    qed
  qed
  have 2: "store_ok ?s"
    unfolding store_ok_def
  proof (intro allI impI)
    fix b cb assume st: "store ?s b = Some cb"
    show "b < fresh ?s \<and>
        (cache ?s (uri (object cb)) \<noteq> Some b \<longrightarrow> refs cb \<le> 0 \<and> \<not> emitter_live cb)"
    proof (cases "b = fresh s")
      case True
      with st have "cb = ?c" by simp
      with True new show ?thesis by simp
    next
      case False
      with st have sb: "store s b = Some cb" by simp
      from store_okD[OF so sb] k False show ?thesis by auto
    qed
  qed
  have 3: "trace_ok ?s"
    unfolding trace_ok_def
  proof (intro allI)
    fix b
    from trace_okD[OF tro, of b] unalloc
    show "count_list (trace ?s) (b, OnDispose) \<le> 1 \<and>
          ((b, OnDispose) \<in> set (trace ?s) \<longrightarrow> (\<exists>c. store ?s b = Some c \<and> refs c \<le> 0))"
      by auto
  qed
  from 1 2 3 show ?thesis by (simp add: invar_def eq)
qed

lemma invar_dispose_keep:
  assumes inv: "invar s" and at: "store s a = Some c" and r: "refs c \<noteq> 1"
  shows "invar (s\<lparr>store := (store s)(a \<mapsto> c\<lparr>refs := refs c - 1\<rparr>)\<rparr>)"
proof -
  from inv have co: "cache_ok s" and so: "store_ok s" and tro: "trace_ok s"
    by (simp_all add: invar_def)
  let ?s = "s\<lparr>store := (store s)(a \<mapsto> c\<lparr>refs := refs c - 1\<rparr>)\<rparr>"
  have 1: "cache_ok ?s"
    unfolding cache_ok_def
  proof (intro allI impI)
    fix k' b assume "cache ?s k' = Some b"
    then have kb: "cache s k' = Some b" by simp
    from cache_okD[OF co kb] obtain cb where
      cb: "store s b = Some cb" "uri (object cb) = k'" "1 \<le> refs cb" "emitter_live cb" by blast
    show "\<exists>c. store ?s b = Some c \<and> uri (object c) = k' \<and> 1 \<le> refs c \<and> emitter_live c"
    proof (cases "b = a")
      case True
      with cb at have "cb = c" by simp
      with cb True r show ?thesis by (simp add: emitter_live_def)
    next
      case False
      with cb show ?thesis by simp
    qed
  qed
  have 2: "store_ok ?s"
    unfolding store_ok_def
  proof (intro allI impI)
    fix b cb assume st: "store ?s b = Some cb"
    show "b < fresh ?s \<and>
        (cache ?s (uri (object cb)) \<noteq> Some b \<longrightarrow> refs cb \<le> 0 \<and> \<not> emitter_live cb)"
    proof (cases "b = a")
      case True
      with st have "cb = c\<lparr>refs := refs c - 1\<rparr>" by simp
      with store_okD[OF so at] True show ?thesis by (auto simp: emitter_live_def)
    next
      case False
      with st have "store s b = Some cb" by simp
      from store_okD[OF so this] show ?thesis by simp
    qed
  qed
  have 3: "trace_ok ?s"
    unfolding trace_ok_def
  proof (intro allI)
    fix b
    from trace_okD[OF tro, of b] at
    show "count_list (trace ?s) (b, OnDispose) \<le> 1 \<and>
          ((b, OnDispose) \<in> set (trace ?s) \<longrightarrow> (\<exists>c. store ?s b = Some c \<and> refs c \<le> 0))"
      by auto
  qed
  from 1 2 3 show ?thesis by (simp add: invar_def)
qed

lemma invar_dispose_last:
  assumes inv: "invar s" and at: "store s a = Some c" and r: "refs c = 1"
  shows "invar (s\<lparr>store := (store s)(a \<mapsto> c\<lparr>refs := 0, object := resource_dispose (object c)\<rparr>),
                  cache := (cache s)(uri (object c) := None),
                  trace := trace s @ [(a, OnDispose)]\<rparr>)"
proof -
  from inv have co: "cache_ok s" and so: "store_ok s" and tro: "trace_ok s"
    by (simp_all add: invar_def)
  let ?c = "c\<lparr>refs := 0, object := resource_dispose (object c)\<rparr>"
  let ?s = "s\<lparr>store := (store s)(a \<mapsto> ?c), cache := (cache s)(uri (object c) := None),
              trace := trace s @ [(a, OnDispose)]\<rparr>"
  have dead: "uri (object ?c) = uri (object c)" "\<not> emitter_live ?c"
    by (simp_all add: resource_dispose_def Emitter_dispose_def emitter_live_def)
  from store_okD[OF so at] r have incache: "cache s (uri (object c)) = Some a" by auto
  have 1: "cache_ok ?s"
    unfolding cache_ok_def
  proof (intro allI impI)
    fix k' b assume kb0: "cache ?s k' = Some b"
    then have ne: "k' \<noteq> uri (object c)" and kb: "cache s k' = Some b"
      by (auto split: if_splits)
    from cache_okD[OF co kb] obtain cb where
      cb: "store s b = Some cb" "uri (object cb) = k'" "1 \<le> refs cb" "emitter_live cb" by blast
    from cb at ne have "b \<noteq> a" by auto
    with cb show "\<exists>c. store ?s b = Some c \<and> uri (object c) = k' \<and> 1 \<le> refs c \<and> emitter_live c"
      by simp
  qed
  have 2: "store_ok ?s"
    unfolding store_ok_def
  proof (intro allI impI)
    fix b cb assume st: "store ?s b = Some cb"
    show "b < fresh ?s \<and>
        (cache ?s (uri (object cb)) \<noteq> Some b \<longrightarrow> refs cb \<le> 0 \<and> \<not> emitter_live cb)"
    proof (cases "b = a")
      case True
      with st have "cb = ?c" by simp
      with store_okD[OF so at] True dead show ?thesis by simp
    next
      case False
      with st have sb: "store s b = Some cb" by simp
      from store_okD[OF so sb] False incache show ?thesis by auto
    qed
  qed
  have 3: "trace_ok ?s"
    unfolding trace_ok_def
  proof (intro allI)
    fix b
    have notyet: "(a, OnDispose) \<notin> set (trace s)"
      using trace_okD[OF tro, of a] at r by auto
    from trace_okD[OF tro, of b] notyet
    show "count_list (trace ?s) (b, OnDispose) \<le> 1 \<and>
          ((b, OnDispose) \<in> set (trace ?s) \<longrightarrow> (\<exists>c. store ?s b = Some c \<and> refs c \<le> 0))"
      by (auto simp: count_list_0_iff)
  qed
  from 1 2 3 show ?thesis by (simp add: invar_def)
qed

lemma invar_handle_dispose: "invar s \<Longrightarrow> invar (handle_dispose a s)"
proof (cases "store s a")
  case None
  assume "invar s"
  with None show ?thesis by (simp add: handle_dispose_def)
next
  case (Some c)
  assume "invar s"
  with Some show ?thesis
    by (simp add: handle_dispose_eq invar_dispose_keep invar_dispose_last)
qed

lemma invar_handle_update: "invar s \<Longrightarrow> invar (handle_update a opts s)"
proof (cases "store s a")
  case None
  assume "invar s"
  with None show ?thesis by (simp add: handle_update_def)
next
  case (Some c)
  assume inv: "invar s"
  have "\<forall>b. (b, OnDispose) \<notin> set (map (Pair a) (snd (resource_update opts (object c))))"
    using resource_update_signals [of opts "object c"] by auto
  with inv Some show ?thesis
    by (simp add: handle_update_eq invar_modify emitter_live_def)
qed

lemma invar_handle_saveContents: "invar s \<Longrightarrow> invar (snd (handle_saveContents a x res s))"
proof (cases "store s a")
  case None
  assume "invar s"
  with None show ?thesis by (simp add: handle_saveContents_def)
next
  case (Some c)
  assume inv: "invar s"
  have "\<forall>b. (b, OnDispose) \<notin> set (map (Pair a) (snd (snd (resource_saveContents res x (object c)))))"
    using resource_saveContents_signals [of res x "object c"] by auto
  with inv Some show ?thesis
    by (simp add: handle_saveContents_eq invar_modify emitter_live_def)
qed

lemma invar_step: "invar s \<Longrightarrow> invar (step cmd s)"
proof (cases cmd)
  case (Add key opts)
  assume "invar s"
  then show ?thesis
    using invar_add [of s key opts] Add by (cases "cache s key") (simp_all add: add_def)
next
  case (Resolve key)
  assume "invar s"
  then show ?thesis
    using invar_acquire [of s key] Resolve by (simp add: resolve_def split: option.splits)
next
  case (TryGet key)
  assume "invar s"
  then show ?thesis
    using invar_acquire [of s key] TryGet
    by (simp add: tryGet_def resolve_def split: option.splits)
next
  case (Update key x)
  assume "invar s"
  then show ?thesis
    using Update by (simp add: update_def invar_handle_update split: option.splits)
next
  case (Dispose a)
  assume "invar s"
  then show ?thesis using Dispose by (simp add: invar_handle_dispose)
next
  case (HandleUpdate a opts)
  assume "invar s"
  then show ?thesis using HandleUpdate by (simp add: invar_handle_update)
next
  case (SaveContents a x res)
  assume "invar s"
  then show ?thesis using SaveContents by (simp add: invar_handle_saveContents)
qed

lemma invar_run: "invar s \<Longrightarrow> invar (run cmds s)"
  by (induction cmds arbitrary: s) (simp_all add: invar_step)

lemma invar_reachable: "invar (run cmds init)"
  by (simp add: invar_run invar_init)

lemma live_entry:
  assumes inv: "invar s"
  shows "cache s key = Some a \<longleftrightarrow>
           (0 < handle_refs a s \<and> map_option uri (handle_object a s) = Some key)"
proof
  assume k: "cache s key = Some a"
  from inv have "cache_ok s" by (simp add: invar_def)
  from cache_okD[OF this k] show "0 < handle_refs a s \<and> map_option uri (handle_object a s) = Some key"
    by (auto simp: handle_refs_def handle_object_def)
next
  assume h: "0 < handle_refs a s \<and> map_option uri (handle_object a s) = Some key"
  then obtain c where c: "store s a = Some c" "uri (object c) = key" "0 < refs c"
    by (auto simp: handle_refs_def handle_object_def split: option.splits)
  from inv have "store_ok s" by (simp add: invar_def)
  from store_okD[OF this c(1)] c show "cache s key = Some a" by auto
qed

subsection \<open>What calls leave unchanged\<close>

lemma frame_refl: "frame a s s"
  by (simp add: frame_def)

lemma frame_trans: "frame a s s1 \<Longrightarrow> frame a s1 s2 \<Longrightarrow> frame a s s2"
  unfolding frame_def by fastforce

lemma count_list_Pair_other:
  "b \<noteq> a \<Longrightarrow> count_list (map (Pair b) xs) (a, y) = 0"
  by (induction xs) auto

lemma count_list_Pair_absent:
  "y \<notin> set xs \<Longrightarrow> count_list (map (Pair b) xs) (a, y) = 0"
  by (induction xs) auto

lemma frame_handle_acquire: "frame a s (handle_acquire b s)"
  by (auto simp: frame_def handle_acquire_def counter_acquire_def emitter_live_def
      split: option.splits)

lemma frame_handle_dispose: "frame a s (handle_dispose b s)"
proof (cases "store s b")
  case None
  then show ?thesis by (simp add: handle_dispose_def frame_refl)
next
  case (Some c)
  then show ?thesis
    by (auto simp: frame_def handle_dispose_eq emitter_live_def resource_dispose_def
        Emitter_dispose_def)
qed

lemma frame_handle_update: "frame a s (handle_update b opts s)"
proof (cases "store s b")
  case None
  then show ?thesis by (simp add: handle_update_def frame_refl)
next
  case (Some c)
  show ?thesis
  proof (cases "b = a")
    case True
    with Some show ?thesis
      by (auto simp: frame_def handle_update_eq emitter_live_def resource_update_disposed)
  next
    case False
    with Some show ?thesis
      by (auto simp: frame_def handle_update_eq count_list_Pair_other)
  qed
qed

lemma frame_handle_saveContents: "frame a s (snd (handle_saveContents b x res s))"
proof (cases "store s b")
  case None
  then show ?thesis by (simp add: handle_saveContents_def frame_refl)
next
  case (Some c)
  show ?thesis
  proof (cases "b = a")
    case True
    with Some show ?thesis
      by (auto simp: frame_def handle_saveContents_eq emitter_live_def
          resource_saveContents_disposed count_list_Pair_absent)
  next
    case False
    with Some show ?thesis
      by (auto simp: frame_def handle_saveContents_eq count_list_Pair_other)
  qed
qed

lemma frame_add: "invar s \<Longrightarrow> frame a s (snd (add key opts s))"
proof -
  assume inv: "invar s"
  then have so: "store_ok s" by (simp add: invar_def)
  show ?thesis
    unfolding frame_def
  proof (intro allI impI)
    fix c assume at: "store s a = Some c"
    from store_okD[OF so at] have "a \<noteq> fresh s" by auto
    with at show "\<exists>c'. store (snd (add key opts s)) a = Some c' \<and>
              uri (object c') = uri (object c) \<and>
              options (object c') = options (object c) \<and>
              (\<not> emitter_live c \<longrightarrow>
                 \<not> emitter_live c' \<and>
                 count_list (trace (snd (add key opts s))) (a, DidChangeContents) =
                   count_list (trace s) (a, DidChangeContents))"
      by (simp add: add_def Let_def)
  qed
qed

lemma frame_step: "invar s \<Longrightarrow> frame a s (step cmd s)"
  by (cases cmd)
    (simp_all add: frame_add frame_handle_acquire frame_handle_dispose frame_handle_update
      frame_handle_saveContents frame_refl resolve_def tryGet_def update_def
      split: option.splits)

lemma frame_run: "invar s \<Longrightarrow> frame a s (run cmds s)"
proof (induction cmds arbitrary: s)
  case Nil
  then show ?case by (simp add: frame_refl)
next
  case (Cons cmd cmds)
  from Cons.prems have "frame a s (step cmd s)" by (rule frame_step)
  moreover from Cons.prems have "frame a (step cmd s) (run cmds (step cmd s))"
    by (intro Cons.IH invar_step)
  ultimately show ?case by (simp add: frame_trans)
qed

section \<open>The claims\<close>

text \<open>In the statements below, \<open>s = run cmds init\<close> says that \<open>s\<close> is a state a client can reach.\<close>

subsection \<open>C1: the life cycle of the reference count\<close>

text \<open>
  Claim C1. In every reachable state: \<open>add\<close> on a free identifier creates the entry with
  reference count 1; \<open>resolve\<close> on a live entry returns its handle and increments the count
  by 1; disposing a handle decrements the count by 1. Exactly when the count becomes zero,
  the teardown runs: the entry was the one of the handle's identifier, it is removed from
  the cache, and the holder's emitter is disposed; otherwise cache, holder and trace are
  unchanged. For a holder whose emitter is disposed no later sequence of calls delivers a
  change notification. A handle is in the cache under its identifier exactly while its count
  is positive.
\<close>

theorem refcount_lifecycle:
  assumes reach: "s = run cmds init"
  shows
    "(cache s key = None \<longrightarrow>
        fst (add key opts s) = Inr (fresh s) \<and>
        cache (snd (add key opts s)) key = Some (fresh s) \<and>
        handle_refs (fresh s) (snd (add key opts s)) = 1) \<and>
     (cache s k = Some a \<longrightarrow>
        fst (resolve k s) = Inr a \<and>
        handle_refs a (snd (resolve k s)) = handle_refs a s + 1) \<and>
     (handle_object b s = Some r \<longrightarrow>
        handle_refs b (handle_dispose b s) = handle_refs b s - 1 \<and>
        (if handle_refs b (handle_dispose b s) = 0
         then cache s (uri r) = Some b \<and>
              cache (handle_dispose b s) = (cache s)(uri r := None) \<and>
              handle_object b (handle_dispose b s) = Some (resource_dispose r) \<and>
              isDisposed (onDidChangeContentsEmitter (resource_dispose r)) \<and>
              trace (handle_dispose b s) = trace s @ [(b, OnDispose)]
         else cache (handle_dispose b s) = cache s \<and>
              handle_object b (handle_dispose b s) = Some r \<and>
              trace (handle_dispose b s) = trace s)) \<and>
     (handle_object d s = Some r' \<and> isDisposed (onDidChangeContentsEmitter r') \<longrightarrow>
        count_list (trace (run cmds' s)) (d, DidChangeContents) =
          count_list (trace s) (d, DidChangeContents)) \<and>
     (cache s k' = Some a' \<longleftrightarrow>
        (0 < handle_refs a' s \<and> map_option uri (handle_object a' s) = Some k'))"
proof -
  from reach have inv: "invar s" by (simp add: invar_reachable)
  then have co: "cache_ok s" and so: "store_ok s" by (simp_all add: invar_def)
  have 1: "cache s key = None \<longrightarrow>
        fst (add key opts s) = Inr (fresh s) \<and>
        cache (snd (add key opts s)) key = Some (fresh s) \<and>
        handle_refs (fresh s) (snd (add key opts s)) = 1"
    by (simp add: add_def Let_def handle_refs_def counter_create_def counter_acquire_def)
  have 2: "cache s k = Some a \<longrightarrow>
        fst (resolve k s) = Inr a \<and>
        handle_refs a (snd (resolve k s)) = handle_refs a s + 1"
  proof
    assume k: "cache s k = Some a"
    from cache_okD[OF co k] obtain c where "store s a = Some c" by blast
    with k show "fst (resolve k s) = Inr a \<and>
        handle_refs a (snd (resolve k s)) = handle_refs a s + 1"
      by (simp add: resolve_def handle_acquire_def handle_refs_def counter_acquire_def)
  qed
  have 3: "handle_object b s = Some r \<longrightarrow>
        handle_refs b (handle_dispose b s) = handle_refs b s - 1 \<and>
        (if handle_refs b (handle_dispose b s) = 0
         then cache s (uri r) = Some b \<and>
              cache (handle_dispose b s) = (cache s)(uri r := None) \<and>
              handle_object b (handle_dispose b s) = Some (resource_dispose r) \<and>
              isDisposed (onDidChangeContentsEmitter (resource_dispose r)) \<and>
              trace (handle_dispose b s) = trace s @ [(b, OnDispose)]
         else cache (handle_dispose b s) = cache s \<and>
              handle_object b (handle_dispose b s) = Some r \<and>
              trace (handle_dispose b s) = trace s)"
  proof
    assume "handle_object b s = Some r"
    then obtain c where c: "store s b = Some c" "object c = r"
      by (auto simp: handle_object_def)
    from store_okD[OF so c(1)] c have "refs c = 1 \<longrightarrow> cache s (uri r) = Some b" by auto
    with c show "handle_refs b (handle_dispose b s) = handle_refs b s - 1 \<and>
        (if handle_refs b (handle_dispose b s) = 0
         then cache s (uri r) = Some b \<and>
              cache (handle_dispose b s) = (cache s)(uri r := None) \<and>
              handle_object b (handle_dispose b s) = Some (resource_dispose r) \<and>
              isDisposed (onDidChangeContentsEmitter (resource_dispose r)) \<and>
              trace (handle_dispose b s) = trace s @ [(b, OnDispose)]
         else cache (handle_dispose b s) = cache s \<and>
              handle_object b (handle_dispose b s) = Some r \<and>
              trace (handle_dispose b s) = trace s)"
      by (simp add: handle_dispose_eq handle_refs_def handle_object_def resource_dispose_def
          Emitter_dispose_def)
  qed
  have 4: "handle_object d s = Some r' \<and> isDisposed (onDidChangeContentsEmitter r') \<longrightarrow>
        count_list (trace (run cmds' s)) (d, DidChangeContents) =
          count_list (trace s) (d, DidChangeContents)"
  proof
    assume h: "handle_object d s = Some r' \<and> isDisposed (onDidChangeContentsEmitter r')"
    then obtain c where c: "store s d = Some c" "\<not> emitter_live c"
      by (auto simp: handle_object_def emitter_live_def)
    from frame_run[OF inv, of d cmds'] c
    show "count_list (trace (run cmds' s)) (d, DidChangeContents) =
          count_list (trace s) (d, DidChangeContents)"
      by (auto simp: frame_def)
  qed
  from 1 2 3 4 live_entry[OF inv, of k' a'] show ?thesis by blast
qed

theorem refcount_lifecycle_witness:
  "lifecycle_example = run [Add ''a'' None, Dispose 0, Add ''b'' None] init \<and>
   cache lifecycle_example ''c'' = None \<and>
   fst (add ''c'' None lifecycle_example) = Inr 2 \<and>
   handle_refs 2 (snd (add ''c'' None lifecycle_example)) = 1 \<and>
   cache lifecycle_example ''b'' = Some 1 \<and>
   fst (resolve ''b'' lifecycle_example) = Inr 1 \<and>
   handle_refs 1 (snd (resolve ''b'' lifecycle_example)) = 2 \<and>
   handle_object 1 lifecycle_example = Some (resource_new ''b'' None) \<and>
   handle_refs 1 (handle_dispose 1 lifecycle_example) = 0 \<and>
   cache (handle_dispose 1 lifecycle_example) = Map.empty \<and>
   trace (handle_dispose 1 lifecycle_example) = [(0, OnDispose), (1, OnDispose)] \<and>
   handle_object 0 lifecycle_example = Some (resource_dispose (resource_new ''a'' None)) \<and>
   isDisposed (onDidChangeContentsEmitter (resource_dispose (resource_new ''a'' None))) \<and>
   count_list (trace (run [HandleUpdate 0 \<lparr>upd_contents = Some (Text ''z''), upd_onSave = None\<rparr>]
      lifecycle_example)) (0, DidChangeContents) = 0"
  using refcount_lifecycle [of lifecycle_example "[Add ''a'' None, Dispose 0, Add ''b'' None]"
      "''c''" None "''b''" 1 1 "resource_new ''b'' None" 0
      "resource_dispose (resource_new ''a'' None)"
      "[HandleUpdate 0 \<lparr>upd_contents = Some (Text ''z''), upd_onSave = None\<rparr>]" "''b''" 1]
  by (simp add: lifecycle_example_eq model_defs)

subsection \<open>C2: duplicate registration\<close>

text \<open>
  Claim C2. In every reachable state, \<open>add\<close> on an identifier that has an entry fails with
  \<open>DuplicateRegistration\<close> and returns the state as it was, so the first handle, its count
  and its payload are untouched; in particular a second \<open>add\<close> right after a successful one
  fails. Two handles with a positive count and the same identifier are the same handle: there
  is at most one live entry per identifier.
\<close>

theorem duplicate_registration:
  assumes reach: "s = run cmds init"
  shows
    "(cache s key \<noteq> None \<longrightarrow> add key opts s = (Inl (DuplicateRegistration key), s)) \<and>
     (fst (add k opts1 s) = Inr a \<longrightarrow>
        add k opts2 (snd (add k opts1 s)) = (Inl (DuplicateRegistration k), snd (add k opts1 s))) \<and>
     (0 < handle_refs b s \<and> 0 < handle_refs b' s \<and>
      map_option uri (handle_object b s) = map_option uri (handle_object b' s) \<longrightarrow> b = b')"
proof -
  from reach have inv: "invar s" by (simp add: invar_reachable)
  have 1: "cache s key \<noteq> None \<longrightarrow> add key opts s = (Inl (DuplicateRegistration key), s)"
    by (simp add: add_def)
  have 2: "fst (add k opts1 s) = Inr a \<longrightarrow>
        add k opts2 (snd (add k opts1 s)) = (Inl (DuplicateRegistration k), snd (add k opts1 s))"
    by (simp add: add_def Let_def)
  have 3: "0 < handle_refs b s \<and> 0 < handle_refs b' s \<and>
      map_option uri (handle_object b s) = map_option uri (handle_object b' s) \<longrightarrow> b = b'"
  proof
    assume h: "0 < handle_refs b s \<and> 0 < handle_refs b' s \<and>
      map_option uri (handle_object b s) = map_option uri (handle_object b' s)"
    then obtain key' where k: "map_option uri (handle_object b s) = Some key'"
      by (auto simp: handle_refs_def handle_object_def split: option.splits)
    with h live_entry[OF inv, of key' b] live_entry[OF inv, of key' b']
    show "b = b'" by simp
  qed
  from 1 2 3 show ?thesis by blast
qed

theorem duplicate_registration_witness:
  "one_entry = run [Add ''a'' None] init \<and>
   cache one_entry ''a'' \<noteq> None \<and>
   add ''a'' (Some bare_options) one_entry = (Inl (DuplicateRegistration ''a''), one_entry) \<and>
   fst (add ''b'' None one_entry) = Inr 1 \<and>
   add ''b'' (Some bare_options) (snd (add ''b'' None one_entry)) =
     (Inl (DuplicateRegistration ''b''), snd (add ''b'' None one_entry)) \<and>
   0 < handle_refs 0 one_entry \<and>
   map_option uri (handle_object 0 one_entry) = Some ''a''"
  using duplicate_registration [of one_entry "[Add ''a'' None]" "''a''" "Some bare_options"
      "''b''" None 1 "Some bare_options" 0 0]
  by (simp add: one_entry_def model_defs)

subsection \<open>C3: unknown identifiers\<close>

text \<open>
  Claim C3. For an identifier with no entry, \<open>resolve\<close> and \<open>update\<close> fail with
  \<open>UnknownIdentifier\<close> and leave the state unchanged, and \<open>tryGet\<close> returns no handle and
  leaves the state unchanged. For a live entry, \<open>tryGet\<close> returns the handle and the state
  that \<open>resolve\<close> returns.
\<close>

theorem unknown_identifier:
  "(cache s key = None \<longrightarrow>
      resolve key s = (Inl (UnknownIdentifier key), s) \<and>
      update key x s = (Inl (UnknownIdentifier key), s) \<and>
      tryGet key s = (None, s)) \<and>
   (cache s k = Some a \<longrightarrow>
      fst (resolve k s) = Inr a \<and>
      tryGet k s = (Some a, snd (resolve k s)))"
  by (simp add: resolve_def update_def tryGet_def)

theorem unknown_identifier_witness:
  "cache one_entry ''b'' = None \<and>
   resolve ''b'' one_entry = (Inl (UnknownIdentifier ''b''), one_entry) \<and>
   update ''b'' ''x'' one_entry = (Inl (UnknownIdentifier ''b''), one_entry) \<and>
   tryGet ''b'' one_entry = (None, one_entry) \<and>
   cache one_entry ''a'' = Some 0 \<and>
   fst (resolve ''a'' one_entry) = Inr 0 \<and>
   tryGet ''a'' one_entry = (Some 0, snd (resolve ''a'' one_entry)) \<and>
   handle_refs 0 (snd (tryGet ''a'' one_entry)) = 2"
  using unknown_identifier [of one_entry "''b''" "''x''" "''a''" 0]
  by (simp add: one_entry_def model_defs)

subsection \<open>C4: disposing a released handle\<close>

text \<open>
  Claim C4 says that a further \<open>dispose\<close> of a fully released handle does not drive the
  count below zero. The code decrements without a guard: after \<open>add\<close> and two calls of
  \<open>dispose\<close> the count is \<open>-1\<close>.
\<close>

theorem dispose_underflow_counterexample:
  "\<not> 0 \<le> handle_refs 0 (run [Add ''a'' None, Dispose 0, Dispose 0] init)"
  by (simp add: model_defs)

text \<open>
  Claim C4, amended. In every state, disposing a handle whose count is zero or less
  decrements the count once more, below zero, and does nothing else: the teardown does not
  run again, and cache, holder and trace are unchanged. Over any sequence of disposes, of
  this and of other handles, the teardown of a handle runs at most once: exactly once if the
  handle's count is positive and the handle is disposed at least that many times, and not
  at all otherwise, so never for a handle that is already fully released.
\<close>

theorem dispose_released_handle:
  "(handle_object a s \<noteq> None \<and> handle_refs a s \<le> 0 \<longrightarrow>
      handle_refs a (handle_dispose a s) = handle_refs a s - 1 \<and>
      handle_refs a (handle_dispose a s) < 0 \<and>
      cache (handle_dispose a s) = cache s \<and>
      handle_object a (handle_dispose a s) = handle_object a s \<and>
      trace (handle_dispose a s) = trace s) \<and>
   (handle_refs b s \<le> 0 \<longrightarrow>
      count_list (trace (run (map Dispose bs) s)) (b, OnDispose) =
        count_list (trace s) (b, OnDispose)) \<and>
   count_list (trace (run (map Dispose ds) s')) (d, OnDispose) =
     count_list (trace s') (d, OnDispose) +
       (if 0 < handle_refs d s' \<and> handle_refs d s' \<le> int (count_list ds d) then 1 else 0) \<and>
   count_list (trace (run (map Dispose ds) s')) (d, OnDispose) \<le>
     count_list (trace s') (d, OnDispose) + 1"
proof -
  have 1: "handle_object a s \<noteq> None \<and> handle_refs a s \<le> 0 \<longrightarrow>
      handle_refs a (handle_dispose a s) = handle_refs a s - 1 \<and>
      handle_refs a (handle_dispose a s) < 0 \<and>
      cache (handle_dispose a s) = cache s \<and>
      handle_object a (handle_dispose a s) = handle_object a s \<and>
      trace (handle_dispose a s) = trace s"
    by (auto simp: handle_object_def handle_refs_def handle_dispose_eq)
  have 2: "handle_refs b s \<le> 0 \<longrightarrow>
      count_list (trace (run (map Dispose bs) s)) (b, OnDispose) =
        count_list (trace s) (b, OnDispose)"
    by (simp add: run_disposes_teardowns)
  have 3: "count_list (trace (run (map Dispose ds) s')) (d, OnDispose) =
     count_list (trace s') (d, OnDispose) +
       (if 0 < handle_refs d s' \<and> handle_refs d s' \<le> int (count_list ds d) then 1 else 0)"
    by (rule run_disposes_teardowns)
  have 4: "count_list (trace (run (map Dispose ds) s')) (d, OnDispose) \<le>
     count_list (trace s') (d, OnDispose) + 1"
    by (simp add: run_disposes_teardowns)
  from 1 2 3 4 show ?thesis by blast
qed

theorem dispose_released_handle_witness:
  "handle_object 0 lifecycle_example \<noteq> None \<and>
   handle_refs 0 lifecycle_example = 0 \<and>
   handle_refs 0 (handle_dispose 0 lifecycle_example) = - 1 \<and>
   cache (handle_dispose 0 lifecycle_example) = cache lifecycle_example \<and>
   trace (handle_dispose 0 lifecycle_example) = trace lifecycle_example \<and>
   count_list (trace lifecycle_example) (0, OnDispose) = 1 \<and>
   count_list (trace (run (map Dispose [0, 0, 0]) lifecycle_example)) (0, OnDispose) = 1 \<and>
   handle_refs 0 two_references = 2 \<and>
   count_list (trace (run (map Dispose [0, 0, 0, 0]) two_references)) (0, OnDispose) = 1 \<and>
   handle_refs 0 (run (map Dispose [0, 0, 0, 0]) two_references) = - 2 \<and>
   count_list (trace (run (map Dispose [0]) two_references)) (0, OnDispose) = 0"
  using dispose_released_handle [of 0 lifecycle_example 0 "[0, 0, 0]" "[0, 0, 0, 0]"
      two_references 0]
    dispose_released_handle [of 0 lifecycle_example 0 "[0, 0, 0]" "[0]" two_references 0]
  by (simp add: lifecycle_example_eq two_references_def model_defs)

subsection \<open>C5: when an update notifies\<close>

text \<open>
  Claim C5 says that two calls of \<open>update\<close> in a row with the same contents fire the
  notification exactly once. When the payload already equals these contents, neither call
  fires.
\<close>

theorem update_idempotence_counterexample:
  "count_list
     (trace (run [Add ''a'' (Some (bare_options\<lparr>init_contents := Some (Text ''x'')\<rparr>)),
                  Update ''a'' ''x'', Update ''a'' ''x''] init))
     (0, DidChangeContents) \<noteq> 1"
  by (simp add: model_defs bare_options_def)

text \<open>
  Claim C5, amended. In every reachable state and for every live entry, \<open>update\<close> with a
  string \<open>x\<close> succeeds, makes \<open>x\<close> the payload, and delivers one change notification if the
  payload was not the string \<open>x\<close> (a pending promise is never equal to a string) and none
  otherwise. A second call with the same \<open>x\<close> changes nothing and delivers nothing, so the
  two calls together notify at most once: exactly once if \<open>x\<close> differs from the payload
  before the first call, and not at all if it does not.
\<close>

theorem update_notification:
  assumes reach: "s = run cmds init"
  shows
    "cache s key = Some a \<and> map_option contents (handle_object a s) = Some p \<longrightarrow>
       fst (update key x s) = Inr () \<and>
       map_option contents (handle_object a (snd (update key x s))) = Some (Text x) \<and>
       trace (snd (update key x s)) =
         trace s @ (if p \<noteq> Text x then [(a, DidChangeContents)] else []) \<and>
       update key x (snd (update key x s)) = (Inr (), snd (update key x s))"
proof
  assume h: "cache s key = Some a \<and> map_option contents (handle_object a s) = Some p"
  from reach have "invar s" by (simp add: invar_reachable)
  then have co: "cache_ok s" by (simp add: invar_def)
  from h cache_okD[OF co, of key a] obtain c where
    c: "store s a = Some c" "emitter_live c" "contents (object c) = p"
    by (auto simp: handle_object_def)
  let ?o = "\<lparr>upd_contents = Some (Text x), upd_onSave = None\<rparr>"
  have upd: "resource_update ?o (object c) =
      (if p \<noteq> Text x then ((object c)\<lparr>contents := Text x\<rparr>, [DidChangeContents])
       else (object c, []))"
    using c by (simp add: resource_update_def strict_eq_Text Emitter_fire_def emitter_live_def)
  have first: "update key x s =
      (Inr (), if p \<noteq> Text x
               then s\<lparr>store := (store s)(a \<mapsto> c\<lparr>object := (object c)\<lparr>contents := Text x\<rparr>\<rparr>),
                      trace := trace s @ [(a, DidChangeContents)]\<rparr>
               else s)"
    using h c upd by (simp add: update_def handle_update_eq map_upd_triv)
  have again: "resource_update ?o ((object c)\<lparr>contents := Text x\<rparr>) =
      ((object c)\<lparr>contents := Text x\<rparr>, [])"
    by (simp add: resource_update_def)
  show "fst (update key x s) = Inr () \<and>
       map_option contents (handle_object a (snd (update key x s))) = Some (Text x) \<and>
       trace (snd (update key x s)) =
         trace s @ (if p \<noteq> Text x then [(a, DidChangeContents)] else []) \<and>
       update key x (snd (update key x s)) = (Inr (), snd (update key x s))"
  proof (cases "p = Text x")
    case True
    with first h c show ?thesis by (simp add: handle_object_def)
  next
    case False
    with first h c again show ?thesis
      by (simp add: handle_object_def update_def handle_update_eq)
  qed
qed

theorem update_notification_witness:
  "hello_entry = run [Add ''a'' (Some hello_options)] init \<and>
   cache hello_entry ''a'' = Some 0 \<and>
   map_option contents (handle_object 0 hello_entry) = Some (Text ''hello'') \<and>
   fst (update ''a'' ''world'' hello_entry) = Inr () \<and>
   map_option contents (handle_object 0 (snd (update ''a'' ''world'' hello_entry))) =
     Some (Text ''world'') \<and>
   trace (snd (update ''a'' ''world'' hello_entry)) = [(0, DidChangeContents)] \<and>
   trace (snd (update ''a'' ''world'' (snd (update ''a'' ''world'' hello_entry)))) =
     [(0, DidChangeContents)] \<and>
   trace (snd (update ''a'' ''hello'' hello_entry)) = []"
  using update_notification [of hello_entry "[Add ''a'' (Some hello_options)]" "''a''" 0
      "Text ''hello''" "''world''"]
    update_notification [of hello_entry "[Add ''a'' (Some hello_options)]" "''a''" 0
      "Text ''hello''" "''hello''"]
  by (simp add: hello_entry_def hello_options_def bare_options_def model_defs)

subsection \<open>C6: saving\<close>

text \<open>
  Claim C6. In every reachable state, for a live holder registered with a save callback
  \<open>cb\<close>: \<open>saveContents x\<close> calls \<open>cb x\<close> once and, when the callback's promise is fulfilled,
  makes \<open>x\<close> the payload and delivers one change notification if the payload differed and
  none otherwise; when the promise is rejected, the call is rejected after the one call of
  \<open>cb\<close> and the holder is unchanged. For a holder registered without a save callback,
  \<open>saveContents\<close> changes nothing and calls nothing. The options a holder is registered with
  stay its options through any sequence of calls.
\<close>

theorem saveContents_semantics:
  assumes reach: "s = run cmds init"
  shows
    "(cache s key = Some a \<and> handle_object a s = Some r \<and>
      Option.bind (options r) init_onSave = Some cb \<longrightarrow>
        fst (handle_saveContents a x (Fulfilled ()) s) = Fulfilled () \<and>
        trace (snd (handle_saveContents a x (Fulfilled ()) s)) =
          trace s @ (a, SaveInvoked cb x) #
            (if contents r \<noteq> Text x then [(a, DidChangeContents)] else []) \<and>
        map_option contents (handle_object a (snd (handle_saveContents a x (Fulfilled ()) s))) =
          Some (Text x) \<and>
        fst (handle_saveContents a x Rejected s) = Rejected \<and>
        trace (snd (handle_saveContents a x Rejected s)) = trace s @ [(a, SaveInvoked cb x)] \<and>
        handle_object a (snd (handle_saveContents a x Rejected s)) = Some r) \<and>
     (handle_object a' s = Some r' \<and> Option.bind (options r') init_onSave = None \<longrightarrow>
        handle_saveContents a' x' res s = (Fulfilled (), s)) \<and>
     (cache s k = None \<longrightarrow>
        map_option options (handle_object (fresh s) (run cmds' (snd (add k opts s)))) =
          Some opts)"
proof -
  from reach have inv: "invar s" by (simp add: invar_reachable)
  then have co: "cache_ok s" by (simp add: invar_def)
  have 1: "cache s key = Some a \<and> handle_object a s = Some r \<and>
      Option.bind (options r) init_onSave = Some cb \<longrightarrow>
        fst (handle_saveContents a x (Fulfilled ()) s) = Fulfilled () \<and>
        trace (snd (handle_saveContents a x (Fulfilled ()) s)) =
          trace s @ (a, SaveInvoked cb x) #
            (if contents r \<noteq> Text x then [(a, DidChangeContents)] else []) \<and>
        map_option contents (handle_object a (snd (handle_saveContents a x (Fulfilled ()) s))) =
          Some (Text x) \<and>
        fst (handle_saveContents a x Rejected s) = Rejected \<and>
        trace (snd (handle_saveContents a x Rejected s)) = trace s @ [(a, SaveInvoked cb x)] \<and>
        handle_object a (snd (handle_saveContents a x Rejected s)) = Some r"
  proof
    assume h: "cache s key = Some a \<and> handle_object a s = Some r \<and>
      Option.bind (options r) init_onSave = Some cb"
    with cache_okD[OF co, of key a] obtain c where
      c: "store s a = Some c" "object c = r" "emitter_live c"
      by (auto simp: handle_object_def)
    from h obtain io where io: "options r = Some io" "init_onSave io = Some cb"
      by (cases "options r") auto
    have ok: "resource_saveContents (Fulfilled ()) x r =
        (Fulfilled (),
         if contents r \<noteq> Text x then r\<lparr>contents := Text x\<rparr> else r,
         SaveInvoked cb x # (if contents r \<noteq> Text x then [DidChangeContents] else []))"
      using c io
      by (simp add: resource_saveContents_def resource_update_def strict_eq_Text
          Emitter_fire_def emitter_live_def)
    have bad: "resource_saveContents Rejected x r = (Rejected, r, [SaveInvoked cb x])"
      using io by (simp add: resource_saveContents_def)
    from c ok bad show "fst (handle_saveContents a x (Fulfilled ()) s) = Fulfilled () \<and>
        trace (snd (handle_saveContents a x (Fulfilled ()) s)) =
          trace s @ (a, SaveInvoked cb x) #
            (if contents r \<noteq> Text x then [(a, DidChangeContents)] else []) \<and>
        map_option contents (handle_object a (snd (handle_saveContents a x (Fulfilled ()) s))) =
          Some (Text x) \<and>
        fst (handle_saveContents a x Rejected s) = Rejected \<and>
        trace (snd (handle_saveContents a x Rejected s)) = trace s @ [(a, SaveInvoked cb x)] \<and>
        handle_object a (snd (handle_saveContents a x Rejected s)) = Some r"
      by (simp add: handle_saveContents_eq handle_object_def)
  qed
  have 2: "handle_object a' s = Some r' \<and> Option.bind (options r') init_onSave = None \<longrightarrow>
        handle_saveContents a' x' res s = (Fulfilled (), s)"
  proof
    assume h: "handle_object a' s = Some r' \<and> Option.bind (options r') init_onSave = None"
    then obtain c where c: "store s a' = Some c" "object c = r'"
      by (auto simp: handle_object_def)
    from h have "resource_saveContents res x' r' = (Fulfilled (), r', [])"
      by (cases "options r'") (simp_all add: resource_saveContents_def)
    with c show "handle_saveContents a' x' res s = (Fulfilled (), s)"
      by (simp add: handle_saveContents_eq map_upd_triv)
  qed
  have 3: "cache s k = None \<longrightarrow>
        map_option options (handle_object (fresh s) (run cmds' (snd (add k opts s)))) =
          Some opts"
  proof
    assume k: "cache s k = None"
    let ?s = "snd (add k opts s)"
    from inv k have inv': "invar ?s" by (rule invar_add)
    from k have at: "store ?s (fresh s) = Some (counter_create (resource_new k opts))"
      by (simp add: add_def Let_def)
    from frame_run[OF inv', of "fresh s" cmds'] at
    show "map_option options (handle_object (fresh s) (run cmds' ?s)) = Some opts"
      by (auto simp: frame_def handle_object_def counter_create_def counter_acquire_def
          resource_new_def)
  qed
  from 1 2 3 show ?thesis by blast
qed

theorem saveContents_semantics_witness:
  "saving_entry = run [Add ''a'' (Some saving_options)] init \<and>
   cache saving_entry ''a'' = Some 0 \<and>
   handle_object 0 saving_entry = Some (resource_new ''a'' (Some saving_options)) \<and>
   Option.bind (options (resource_new ''a'' (Some saving_options))) init_onSave = Some 7 \<and>
   trace (snd (handle_saveContents 0 ''x'' (Fulfilled ()) saving_entry)) =
     [(0, SaveInvoked 7 ''x''), (0, DidChangeContents)] \<and>
   map_option contents
     (handle_object 0 (snd (handle_saveContents 0 ''x'' (Fulfilled ()) saving_entry))) =
     Some (Text ''x'') \<and>
   handle_object 0 one_entry = Some (resource_new ''a'' None) \<and>
   Option.bind (options (resource_new ''a'' None)) init_onSave = None \<and>
   handle_saveContents 0 ''x'' (Fulfilled ()) one_entry = (Fulfilled (), one_entry) \<and>
   cache saving_entry ''b'' = None \<and>
   map_option options
     (handle_object 1 (run [Update ''b'' ''y''] (snd (add ''b'' (Some saving_options) saving_entry)))) =
     Some (Some saving_options)"
  using saveContents_semantics [of saving_entry "[Add ''a'' (Some saving_options)]" "''a''" 0
      "resource_new ''a'' (Some saving_options)" 7 "''x''" 0 "resource_new ''a'' None" "''x''"
      "Fulfilled ()" "''b''" "[Update ''b'' ''y'']" "Some saving_options"]
    saveContents_semantics [of one_entry "[Add ''a'' None]" "''a''" 0
      "resource_new ''a'' None" 7 "''x''" 0 "resource_new ''a'' None" "''x''"
      "Fulfilled ()" "''b''" "[]" None]
  by (simp add: saving_entry_def saving_options_def one_entry_def bare_options_def model_defs)

subsection \<open>C7: saving after the callback was replaced\<close>

text \<open>
  Claim C7 says that after \<open>update\<close> has replaced the save callback, \<open>saveContents\<close> calls
  the new callback. The code evaluated: a holder is registered with callback 7 and updated
  to callback 8; the field \<^verbatim>\<open>onSave\<close> then holds 8, but \<open>saveContents\<close> calls 7. A holder
  registered without a callback and updated to callback 8 reports that it is not read-only,
  but \<open>saveContents\<close> does nothing.
\<close>

theorem saveContents_after_callback_update:
  "map_option onSave
     (handle_object 0
        (run [Add ''a'' (Some saving_options),
              HandleUpdate 0 \<lparr>upd_contents = None, upd_onSave = Some (Some 8)\<rparr>] init)) =
     Some (Some 8) \<and>
   trace (run [Add ''a'' (Some saving_options),
               HandleUpdate 0 \<lparr>upd_contents = None, upd_onSave = Some (Some 8)\<rparr>,
               SaveContents 0 ''x'' (Fulfilled ())] init) =
     [(0, SaveInvoked 7 ''x''), (0, DidChangeContents)] \<and>
   handle_readOnly 0
     (run [Add ''a'' None,
           HandleUpdate 0 \<lparr>upd_contents = None, upd_onSave = Some (Some 8)\<rparr>] init) = False \<and>
   run [Add ''a'' None,
        HandleUpdate 0 \<lparr>upd_contents = None, upd_onSave = Some (Some 8)\<rparr>,
        SaveContents 0 ''x'' (Fulfilled ())] init =
   run [Add ''a'' None,
        HandleUpdate 0 \<lparr>upd_contents = None, upd_onSave = Some (Some 8)\<rparr>] init"
  by (simp add: saving_options_def bare_options_def model_defs)

subsection \<open>C8: reading after registration and update\<close>

text \<open>
  Claim C8. After \<open>add\<close> with string contents \<open>c1\<close> on a free identifier, \<open>readContents\<close> on
  the new handle is fulfilled with \<open>c1\<close> and nothing has been notified; after \<open>update\<close> with
  a different string \<open>c2\<close>, exactly one change notification has been delivered and
  \<open>readContents\<close> is fulfilled with \<open>c2\<close>. In any state \<open>readContents\<close> delivers the current
  payload: a string as it is, a pending promise as it settles.
\<close>

theorem read_update_round_trip:
  "(cache s key = None \<and> init_contents io = Some (Text c1) \<and> c1 \<noteq> c2 \<longrightarrow>
      fst (add key (Some io) s) = Inr (fresh s) \<and>
      handle_readContents (fresh s) (snd (add key (Some io) s)) = Fulfilled c1 \<and>
      trace (snd (add key (Some io) s)) = trace s \<and>
      fst (update key c2 (snd (add key (Some io) s))) = Inr () \<and>
      trace (snd (update key c2 (snd (add key (Some io) s)))) =
        trace s @ [(fresh s, DidChangeContents)] \<and>
      handle_readContents (fresh s) (snd (update key c2 (snd (add key (Some io) s)))) =
        Fulfilled c2) \<and>
   (map_option contents (handle_object a s) = Some (Text t) \<longrightarrow>
      handle_readContents a s = Fulfilled t) \<and>
   (map_option contents (handle_object a s) = Some (Pending n res) \<longrightarrow>
      handle_readContents a s = res)"
  by (auto simp: add_def update_def handle_update_def handle_readContents_def
      resource_readContents_def resource_update_def resource_new_def counter_create_def
      counter_acquire_def Emitter_fire_def Emitter_new_def handle_object_def Let_def)

theorem read_update_round_trip_witness:
  "cache init ''a'' = None \<and> init_contents hello_options = Some (Text ''hello'') \<and>
   fst (add ''a'' (Some hello_options) init) = Inr 0 \<and>
   handle_readContents 0 (snd (add ''a'' (Some hello_options) init)) = Fulfilled ''hello'' \<and>
   fst (update ''a'' ''world'' (snd (add ''a'' (Some hello_options) init))) = Inr () \<and>
   trace (snd (update ''a'' ''world'' (snd (add ''a'' (Some hello_options) init)))) =
     [(0, DidChangeContents)] \<and>
   handle_readContents 0 (snd (update ''a'' ''world'' (snd (add ''a'' (Some hello_options) init)))) =
     Fulfilled ''world'' \<and>
   handle_readContents 0
     (snd (add ''a'' (Some (bare_options\<lparr>init_contents := Some (Pending 3 (Fulfilled ''seed''))\<rparr>))
        init)) = Fulfilled ''seed''"
  using read_update_round_trip [of init "''a''" hello_options "''hello''" "''world''" 0 "''hello''"
      3 "Fulfilled ''seed''"]
    read_update_round_trip [of
      "snd (add ''a'' (Some (bare_options\<lparr>init_contents := Some (Pending 3 (Fulfilled ''seed''))\<rparr>)) init)"
      "''a''" hello_options "''hello''" "''world''" 0 "''hello''" 3 "Fulfilled ''seed''"]
  by (simp add: hello_options_def bare_options_def model_defs)

subsection \<open>C9: read-only without a save callback\<close>

text \<open>
  Claim C9. A holder whose current save callback is undefined reports \<open>readOnly\<close>: in
  general; for a new holder whose options carry no callback, whatever the flag
  \<^verbatim>\<open>readOnly\<close> they carry; after an update that sets the callback to \<^verbatim>\<open>undefined\<close>; and
  for every handle in every reachable state.
\<close>

theorem readOnly_without_callback:
  "(onSave r = None \<longrightarrow> resource_readOnly r) \<and>
   (Option.bind opts init_onSave = None \<longrightarrow> resource_readOnly (resource_new u opts)) \<and>
   (upd_onSave uo = Some None \<longrightarrow> resource_readOnly (fst (resource_update uo r'))) \<and>
   (map_option onSave (handle_object a (run cmds init)) = Some None \<longrightarrow>
      handle_readOnly a (run cmds init))"
  by (cases opts)
    (auto simp: resource_readOnly_def resource_new_def resource_update_def handle_readOnly_def
      handle_object_def Let_def split: option.splits)

theorem readOnly_without_callback_witness:
  "onSave (resource_new ''a'' (Some (bare_options\<lparr>init_readOnly := Some False\<rparr>))) = None \<and>
   resource_readOnly (resource_new ''a'' (Some (bare_options\<lparr>init_readOnly := Some False\<rparr>))) \<and>
   resource_readOnly
     (fst (resource_update \<lparr>upd_contents = None, upd_onSave = Some None\<rparr>
        (resource_new ''a'' (Some saving_options)))) \<and>
   \<not> resource_readOnly (resource_new ''a'' (Some saving_options)) \<and>
   map_option onSave
     (handle_object 0
        (run [Add ''a'' (Some saving_options),
              HandleUpdate 0 \<lparr>upd_contents = None, upd_onSave = Some None\<rparr>] init)) = Some None \<and>
   handle_readOnly 0
     (run [Add ''a'' (Some saving_options),
           HandleUpdate 0 \<lparr>upd_contents = None, upd_onSave = Some None\<rparr>] init)"
  using readOnly_without_callback [of
      "resource_new ''a'' (Some (bare_options\<lparr>init_readOnly := Some False\<rparr>))"
      "Some (bare_options\<lparr>init_readOnly := Some False\<rparr>)" "''a''"
      "\<lparr>upd_contents = None, upd_onSave = Some None\<rparr>" "resource_new ''a'' (Some saving_options)"
      0 "[Add ''a'' (Some saving_options),
          HandleUpdate 0 \<lparr>upd_contents = None, upd_onSave = Some None\<rparr>]"]
  by (simp add: saving_options_def bare_options_def model_defs)

subsection \<open>C10: the default payload\<close>

text \<open>
  Claim C10. After \<open>add\<close> on a free identifier with no options or with options that carry
  no contents, the payload is the empty string, \<open>readContents\<close> on the new handle is
  fulfilled with the empty string, and nothing has been notified.
\<close>

theorem empty_seed_default:
  "cache s key = None \<and> Option.bind opts init_contents = None \<longrightarrow>
     fst (add key opts s) = Inr (fresh s) \<and>
     map_option contents (handle_object (fresh s) (snd (add key opts s))) = Some (Text '''') \<and>
     handle_readContents (fresh s) (snd (add key opts s)) = Fulfilled '''' \<and>
     trace (snd (add key opts s)) = trace s"
  by (cases opts)
    (auto simp: add_def handle_readContents_def resource_readContents_def resource_new_def
      counter_create_def counter_acquire_def handle_object_def Let_def split: option.splits)

theorem empty_seed_default_witness:
  "cache init ''a'' = None \<and> Option.bind (Some bare_options) init_contents = None \<and>
   fst (add ''a'' (Some bare_options) init) = Inr 0 \<and>
   handle_readContents 0 (snd (add ''a'' (Some bare_options) init)) = Fulfilled '''' \<and>
   trace (snd (add ''a'' (Some bare_options) init)) = [] \<and>
   handle_readContents 0 (snd (add ''a'' None init)) = Fulfilled ''''"
  using empty_seed_default [of init "''a''" "Some bare_options"]
    empty_seed_default [of init "''a''" None]
  by (simp add: bare_options_def model_defs)

end
